theory Spec2Isabelle
  imports Main "HOL-Library.Sublist" "HOL-Library.AList"
begin

section \<open>Data model of agent-context-manager.py\<close>

text \<open>
  Python's unbounded integers are \<open>int\<close>. A message is a Python dict; the two keys
  that the program reads back with \<open>.get(key, default)\<close> are optional fields, so that
  the default of a missing key is part of the model.
\<close>

datatype error = ValueError | KeyError | OSError | UnicodeDecodeError | AttributeError

record message =
  role :: string
  content :: string
  msg_timestamp :: "string option"
  tokens :: "int option"

record agent_context =
  agent_name :: string
  timestamp :: string
  task_file :: string
  current_tokens :: int
  max_tokens :: int
  messages :: "message list"

record code_annotation =
  file_path :: string
  line_number :: nat
  ann_agent_name :: string
  ann_timestamp :: string
  task_ref :: string
  ann_notes :: string

text \<open>
  A file of the contexts directory either holds what \<open>_save_context\<close> wrote, or
  something that \<open>json.load\<close> / \<open>AgentContext(**data)\<close> rejects.
\<close>

datatype context_file = Saved agent_context | Malformed

text \<open>What the program prints, in order.\<close>

datatype event =
    Registered string
  | Trimming string int
  | Trimmed string int
  | ErrorScanning string error
  | Scanning
  | Found nat

text \<open>
  The manager object together with the files it owns: \<open>agents\<close> and \<open>annotations\<close>
  are the in-memory dicts, \<open>context_files\<close> is the contexts directory (one file per
  agent name), \<open>annotations_file\<close> is annotations.json (\<open>None\<close> when absent). The
  annotations dict is iterated by the program, so it is an association list in insertion
  order: \<open>d[k] = v\<close> is \<open>AList.update k v d\<close>, \<open>k in d\<close> and \<open>d[k]\<close> are \<open>map_of d k\<close>.
\<close>

record manager =
  agents :: "string \<rightharpoonup> agent_context"
  annotations :: "(string \<times> code_annotation list) list"
  context_files :: "string \<rightharpoonup> context_file"
  annotations_file :: "(string \<times> code_annotation list) list option"
  printed :: "event list"

definition load_annotations ::
  "(string \<times> code_annotation list) list option \<Rightarrow> (string \<times> code_annotation list) list" where
  "load_annotations f = (case f of Some data \<Rightarrow> data | None \<Rightarrow> [])"

definition new_manager ::
  "(string \<rightharpoonup> context_file) \<Rightarrow> (string \<times> code_annotation list) list option \<Rightarrow> manager"
  where
  "new_manager ctx_dir ann_file =
     \<lparr>agents = Map.empty, annotations = load_annotations ann_file,
      context_files = ctx_dir, annotations_file = ann_file, printed = []\<rparr>"

definition save_annotations :: "manager \<Rightarrow> manager" where
  "save_annotations s = s\<lparr>annotations_file := Some (annotations s)\<rparr>"

section \<open>Context store\<close>

definition save_context :: "manager \<Rightarrow> string \<Rightarrow> agent_context \<Rightarrow> manager" where
  "save_context s name ctx = s\<lparr>context_files := (context_files s)(name \<mapsto> Saved ctx)\<rparr>"

definition print :: "event \<Rightarrow> manager \<Rightarrow> manager" where
  "print e s = s\<lparr>printed := printed s @ [e]\<rparr>"

definition register_agent :: "manager \<Rightarrow> string \<Rightarrow> string \<Rightarrow> string \<Rightarrow> manager" where
  "register_agent s name task now =
     (let ctx = \<lparr>agent_name = name, timestamp = now, task_file = task,
                 current_tokens = 0, max_tokens = 200000, messages = []\<rparr>;
          s1 = s\<lparr>agents := (agents s)(name \<mapsto> ctx)\<rparr>;
          s2 = save_context s1 name ctx
      in print (Registered name) s2)"

text \<open>\<open>removed.get('tokens', 0)\<close>\<close>

definition get_tokens :: "message \<Rightarrow> int" where
  "get_tokens m = (case tokens m of Some t \<Rightarrow> t | None \<Rightarrow> 0)"

text \<open>
  The while loop of \<open>_trim_context\<close>. \<open>pop(1)\<close> is only reached with more than one
  message, where it returns the element at index 1 and closes the gap.
\<close>

function trim_loop :: "int \<Rightarrow> agent_context \<Rightarrow> agent_context" where
  "trim_loop target_tokens ctx =
     (if current_tokens ctx > target_tokens \<and> length (messages ctx) > 1 then
        (let removed = messages ctx ! 1;
             ctx1 = ctx\<lparr>messages := take 1 (messages ctx) @ drop 2 (messages ctx)\<rparr>;
             ctx2 = ctx1\<lparr>current_tokens := current_tokens ctx1 - get_tokens removed\<rparr>
         in trim_loop target_tokens ctx2)
      else ctx)"
  by pat_completeness auto
termination
  by (relation "measure (\<lambda>(t, c). length (messages c))") auto

declare trim_loop.simps [simp del]

text \<open>
  The body of \<open>_trim_context\<close> once \<open>self.agents[agent_name]\<close> has produced the
  context object. The object is shared with the registry, so the trimmed context is
  what the registry holds afterwards; it is also returned, for the caller that holds
  the same object in a local variable.
\<close>

definition trim_registered :: "manager \<Rightarrow> string \<Rightarrow> agent_context \<Rightarrow> agent_context \<times> manager" where
  "trim_registered s name ctx =
     (let s1 = print (Trimming name (current_tokens ctx)) s;
          target_tokens = max_tokens ctx - 20000;
          ctx' = trim_loop target_tokens ctx;
          s2 = s1\<lparr>agents := (agents s1)(name \<mapsto> ctx')\<rparr>;
          s3 = print (Trimmed name (current_tokens ctx')) s2
      in (ctx', save_context s3 name ctx'))"

text \<open>An unknown name fails at the lookup, before anything is printed or written.\<close>

definition trim_context :: "manager \<Rightarrow> string \<Rightarrow> (error + unit) \<times> manager" where
  "trim_context s name =
     (case agents s name of
        None \<Rightarrow> (Inl KeyError, s)
      | Some ctx \<Rightarrow> (Inr (), snd (trim_registered s name ctx)))"

text \<open>
  \<open>add_message\<close> calls \<open>_trim_context\<close> with a name it has just found in the registry;
  the lookup there returns the object that \<open>context\<close> already names.
\<close>

definition add_message ::
  "manager \<Rightarrow> string \<Rightarrow> string \<Rightarrow> string \<Rightarrow> int \<Rightarrow> string \<Rightarrow> (error + unit) \<times> manager" where
  "add_message s name rl cnt tks now =
     (case agents s name of
        None \<Rightarrow> (Inl ValueError, s)
      | Some ctx \<Rightarrow>
          (let msg = \<lparr>role = rl, content = cnt, msg_timestamp = Some now, tokens = Some tks\<rparr>;
               ctx1 = ctx\<lparr>messages := messages ctx @ [msg]\<rparr>;
               ctx2 = ctx1\<lparr>current_tokens := current_tokens ctx1 + tks\<rparr>;
               s1 = s\<lparr>agents := (agents s)(name \<mapsto> ctx2)\<rparr>;
               (ctx3, s2) = (if current_tokens ctx2 > max_tokens ctx2
                             then trim_registered s1 name ctx2 else (ctx2, s1))
           in (Inr (), save_context s2 name ctx3)))"

definition load_context :: "manager \<Rightarrow> string \<Rightarrow> (error + agent_context option) \<times> manager" where
  "load_context s name =
     (case context_files s name of
        None \<Rightarrow> (Inr None, s)
      | Some Malformed \<Rightarrow> (Inl ValueError, s)
      | Some (Saved ctx) \<Rightarrow> (Inr (Some ctx), s))"

text \<open>A caller issuing operations one after the other; a raised error leaves the state as the
  operation left it.\<close>

datatype operation =
    RegisterAgent string string string
  | AddMessage string string string int string
  | TrimContext string

fun exec_op :: "operation \<Rightarrow> manager \<Rightarrow> manager" where
  "exec_op (RegisterAgent name task now) s = register_agent s name task now"
| "exec_op (AddMessage name rl cnt tks now) s = snd (add_message s name rl cnt tks now)"
| "exec_op (TrimContext name) s = snd (trim_context s name)"

definition run :: "operation list \<Rightarrow> manager \<Rightarrow> manager" where
  "run ops s = foldl (\<lambda>s' opn. exec_op opn s') s ops"


section \<open>Notions used in the statements about the context store\<close>

text \<open>The counter of a context agrees with the messages it retains.\<close>

definition counter_ok :: "agent_context \<Rightarrow> bool" where
  "counter_ok ctx = (current_tokens ctx = sum_list (map get_tokens (messages ctx)))"

text \<open>
  What every context of the registry satisfies between two operations: its counter agrees
  with its messages, its budget is the default of the dataclass, and the file of the
  agent holds the same context.
\<close>

definition store_ok :: "manager \<Rightarrow> bool" where
  "store_ok s = (\<forall>n c. agents s n = Some c \<longrightarrow>
      counter_ok c \<and> max_tokens c = 200000 \<and> context_files s n = Some (Saved c))"



text \<open>A run that registers one agent and appends three messages, staying within budget.\<close>

definition example_ops :: "operation list" where
  "example_ops =
     [RegisterAgent ''a'' ''task.md'' ''2025-01-01T10:00:00'',
      AddMessage ''a'' ''system'' ''s'' 0 ''2025-01-01T10:00:01'',
      AddMessage ''a'' ''user'' ''u'' 100000 ''2025-01-01T10:00:02'',
      AddMessage ''a'' ''assistant'' ''v'' 90000 ''2025-01-01T10:00:03'']"

definition example_context :: agent_context where
  "example_context =
     \<lparr>agent_name = ''a'', timestamp = ''2025-01-01T10:00:00'', task_file = ''task.md'',
      current_tokens = 190000, max_tokens = 200000,
      messages =
        [\<lparr>role = ''system'', content = ''s'', msg_timestamp = Some ''2025-01-01T10:00:01'', tokens = Some 0\<rparr>,
         \<lparr>role = ''user'', content = ''u'', msg_timestamp = Some ''2025-01-01T10:00:02'', tokens = Some 100000\<rparr>,
         \<lparr>role = ''assistant'', content = ''v'', msg_timestamp = Some ''2025-01-01T10:00:03'', tokens = Some 90000\<rparr>]\<rparr>"

section \<open>Strings and the patterns of the scanner\<close>

text \<open>
  Characters are code points below 256. \<open>is_space\<close> is what \<open>\s\<close> and \<open>str.strip\<close>
  take for whitespace there.
\<close>

definition is_space :: "char \<Rightarrow> bool" where
  "is_space c =
     (let n = (of_char c :: nat)
      in (9 \<le> n \<and> n \<le> 13) \<or> (28 \<le> n \<and> n \<le> 32) \<or> n = 133 \<or> n = 160)"

definition not_space :: "char \<Rightarrow> bool" where
  "not_space c = (\<not> is_space c)"

text \<open>The class of \<open>.\<close>: any character but the newline.\<close>

definition not_newline :: "char \<Rightarrow> bool" where
  "not_newline c = (c \<noteq> CHR 0x0A)"

text \<open>The class \<open>[^|\n]\<close>.\<close>

definition not_bar_newline :: "char \<Rightarrow> bool" where
  "not_bar_newline c = (c \<noteq> CHR ''|'' \<and> c \<noteq> CHR 0x0A)"

definition strip :: "string \<Rightarrow> string" where
  "strip s = rev (dropWhile is_space (rev (dropWhile is_space s)))"

text \<open>\<open>sub in s\<close>\<close>

fun str_in :: "string \<Rightarrow> string \<Rightarrow> bool" where
  "str_in sub [] = (sub = [])"
| "str_in sub (c # cs) = (prefix sub (c # cs) \<or> str_in sub cs)"

text \<open>\<open>s.startswith(p)\<close>\<close>

definition startswith :: "string \<Rightarrow> string \<Rightarrow> bool" where
  "startswith s p = prefix p s"

text \<open>
  The patterns of the program all have the shape \<open>literal \s* (class+)\<close> with one group.
  After the literal, \<open>\s*\<close> takes all the whitespace there is; the group then needs one
  character of the class, and takes as many as follow. When there is none, \<open>\s*\<close> gives
  back its characters one at a time, from the right. \<open>match_class C rest k\<close> tries the
  group after \<open>k\<close> characters of whitespace, then after fewer.
\<close>

fun match_class :: "(char \<Rightarrow> bool) \<Rightarrow> string \<Rightarrow> nat \<Rightarrow> string option" where
  "match_class C rest 0 =
     (case rest of
        c # _ \<Rightarrow> if C c then Some (takeWhile C rest) else None
      | [] \<Rightarrow> None)"
| "match_class C rest (Suc k) =
     (case drop (Suc k) rest of
        c # _ \<Rightarrow> if C c then Some (takeWhile C (drop (Suc k) rest)) else match_class C rest k
      | [] \<Rightarrow> match_class C rest k)"

definition match_tail :: "(char \<Rightarrow> bool) \<Rightarrow> string \<Rightarrow> string option" where
  "match_tail C rest = match_class C rest (length (takeWhile is_space rest))"

text \<open>
  \<open>re.search\<close> for such a pattern with a non-empty literal: the leftmost position where
  the whole pattern matches; the result is group 1.
\<close>

fun re_search :: "string \<Rightarrow> (char \<Rightarrow> bool) \<Rightarrow> string \<Rightarrow> string option" where
  "re_search lit C [] = None"
| "re_search lit C (c # cs) =
     (if prefix lit (c # cs) then
        (case match_tail C (drop (length lit) (c # cs)) of
           Some g \<Rightarrow> Some g
         | None \<Rightarrow> re_search lit C cs)
      else re_search lit C cs)"

text \<open>
  \<open>len(re.findall(literal, s))\<close>: matches are found from left to right and do not
  overlap; the search resumes behind a match.
\<close>

function count_matches :: "string \<Rightarrow> string \<Rightarrow> nat" where
  "count_matches pat [] = (if pat = [] then 1 else 0)"
| "count_matches pat (c # cs) =
     (if prefix pat (c # cs) then Suc (count_matches pat (drop (length pat - 1) cs))
      else count_matches pat cs)"
  by pat_completeness auto
termination
  by (relation "measure (\<lambda>(p, s). length s)") auto

text \<open>\<open>f"{n}"\<close> for a count: its decimal digits.\<close>

function show_nat :: "nat \<Rightarrow> string" where
  "show_nat n =
     (if n < 10 then [''0123456789'' ! n] else show_nat (n div 10) @ [''0123456789'' ! (n mod 10)])"
  by pat_completeness auto
termination
  by (relation "measure (\<lambda>n. n)") auto

declare show_nat.simps [simp del]

section \<open>Annotation scanner\<close>

text \<open>
  A source file is read line by line. A line either decodes, or reading it raises
  \<open>UnicodeDecodeError\<close>; a file that cannot be opened raises \<open>OSError\<close>.
\<close>

datatype source_line = Line string | Undecodable

datatype source_file = Unopenable | Text "source_line list"

text \<open>\<open>f.readlines()\<close> from the start of the file.\<close>

fun readlines :: "source_line list \<Rightarrow> error + string list" where
  "readlines [] = Inr []"
| "readlines (Undecodable # ls) = Inl UnicodeDecodeError"
| "readlines (Line l # ls) = (case readlines ls of Inl e \<Rightarrow> Inl e | Inr rest \<Rightarrow> Inr (l # rest))"

text \<open>
  One companion marker on one line of the window: when the marker occurs in the line, the
  variable is overwritten with the stripped group of the pattern; \<open>.group\<close> on the \<open>None\<close>
  of a failed search raises \<open>AttributeError\<close>.
\<close>

definition find_field :: "string \<Rightarrow> string \<Rightarrow> string \<Rightarrow> error + string" where
  "find_field marker line old =
     (if str_in marker line then
        (case re_search marker not_newline line of
           None \<Rightarrow> Inl AttributeError
         | Some g \<Rightarrow> Inr (strip g))
      else Inr old)"

text \<open>
  The loop \<open>for i in range(line_num, min(line_num + 5, len(lines)))\<close> over the variables
  \<open>timestamp\<close>, \<open>task_ref\<close>, \<open>notes\<close> of the body. Every index of the range is below \<open>len(lines)\<close>.
\<close>

fun look_ahead ::
  "string list \<Rightarrow> nat list \<Rightarrow> string \<times> string \<times> string \<Rightarrow> error + string \<times> string \<times> string" where
  "look_ahead lines [] acc = Inr acc"
| "look_ahead lines (i # is) (tstamp, task, nts) =
     (case find_field ''@timestamp:'' (lines ! i) tstamp of
        Inl e \<Rightarrow> Inl e
      | Inr tstamp' \<Rightarrow>
          (case find_field ''@task:'' (lines ! i) task of
             Inl e \<Rightarrow> Inl e
           | Inr task' \<Rightarrow>
               (case find_field ''@notes:'' (lines ! i) nts of
                  Inl e \<Rightarrow> Inl e
                | Inr nts' \<Rightarrow> look_ahead lines is (tstamp', task', nts'))))"

text \<open>
  The loop \<open>for line_num, line in enumerate(f, 1)\<close>. \<open>whole\<close> is the file, \<open>remaining\<close>
  is what the file object has not read yet. At an anchor line the body calls
  \<open>f.seek(0)\<close> and \<open>f.readlines()\<close> on the very file object the loop iterates, which
  leaves it at the end of the file: the loop finds nothing more to read after the body.
  The result is the exception that ended the loop, if any, and the list \<open>annotations\<close>.
\<close>

fun scan_lines ::
  "string \<Rightarrow> source_line list \<Rightarrow> source_line list \<Rightarrow> nat \<Rightarrow> code_annotation list
     \<Rightarrow> error option \<times> code_annotation list" where
  "scan_lines path whole [] line_num anns = (None, anns)"
| "scan_lines path whole (Undecodable # remaining) line_num anns = (Some UnicodeDecodeError, anns)"
| "scan_lines path whole (Line line # remaining) line_num anns =
     (if str_in ''@agent:'' line then
        (case re_search ''@agent:'' not_space line of
           None \<Rightarrow> scan_lines path whole remaining (Suc line_num) anns
         | Some name \<Rightarrow>
             (case readlines whole of
                Inl e \<Rightarrow> (Some e, anns)
              | Inr lines \<Rightarrow>
                  (case look_ahead lines [line_num ..< min (line_num + 5) (length lines)]
                          ('''', '''', '''') of
                     Inl e \<Rightarrow> (Some e, anns)
                   | Inr (tstamp, task, nts) \<Rightarrow>
                       scan_lines path whole [] (Suc line_num)
                         (anns @ [\<lparr>file_path = path, line_number = line_num,
                                   ann_agent_name = name, ann_timestamp = tstamp,
                                   task_ref = task, ann_notes = nts\<rparr>]))))
      else scan_lines path whole remaining (Suc line_num) anns)"

text \<open>The \<open>try\<close> block of \<open>scan_code_annotations\<close>.\<close>

definition scan_try :: "(string \<Rightarrow> source_file) \<Rightarrow> string \<Rightarrow> error option \<times> code_annotation list" where
  "scan_try fs path =
     (case fs path of
        Unopenable \<Rightarrow> (Some OSError, [])
      | Text whole \<Rightarrow> scan_lines path whole whole 1 [])"

text \<open>\<open>except Exception\<close> prints and falls through to \<open>return annotations\<close>.\<close>

definition scan_code_annotations ::
  "(string \<Rightarrow> source_file) \<Rightarrow> manager \<Rightarrow> string \<Rightarrow> code_annotation list \<times> manager" where
  "scan_code_annotations fs s path =
     (case scan_try fs path of
        (None, anns) \<Rightarrow> (anns, s)
      | (Some e, anns) \<Rightarrow> (anns, print (ErrorScanning path e) s))"

definition skipped :: "string \<Rightarrow> bool" where
  "skipped path = (str_in ''node_modules'' path \<or> str_in ''dist'' path \<or> str_in ''.git'' path)"

text \<open>
  The loop of \<open>update_annotations_index\<close> over the paths that the glob \<open>**/*.ts\<close>
  produces, in its order.
\<close>

fun scan_files :: "(string \<Rightarrow> source_file) \<Rightarrow> string list \<Rightarrow> manager \<Rightarrow> manager" where
  "scan_files fs [] s = s"
| "scan_files fs (ts_file # rest) s =
     (if skipped ts_file then scan_files fs rest s
      else
        (case scan_code_annotations fs s ts_file of
           (anns, s1) \<Rightarrow>
             scan_files fs rest
               (if anns \<noteq> [] then s1\<lparr>annotations := AList.update ts_file anns (annotations s1)\<rparr>
                else s1)))"

definition update_annotations_index ::
  "(string \<Rightarrow> source_file) \<Rightarrow> string list \<Rightarrow> manager \<Rightarrow> manager" where
  "update_annotations_index fs ts_files s =
     (let s1 = print Scanning s;
          s2 = scan_files fs ts_files s1;
          s3 = save_annotations s2
      in print (Found (sum_list (map (\<lambda>(p, a). length a) (annotations s3)))) s3)"

section \<open>Relevance lookup\<close>

record relevant =
  rel_agent :: string
  rel_task :: string
  rel_message :: message
  rel_notes :: string

text \<open>\<open>msg.get('timestamp', '')\<close>\<close>

definition get_timestamp :: "message \<Rightarrow> string" where
  "get_timestamp m = (case msg_timestamp m of Some t \<Rightarrow> t | None \<Rightarrow> '''')"

text \<open>The loop over the messages of the other agent's context, for one annotation.\<close>

fun relevant_messages :: "code_annotation \<Rightarrow> message list \<Rightarrow> relevant list" where
  "relevant_messages ann [] = []"
| "relevant_messages ann (msg # msgs) =
     (if startswith (get_timestamp msg) (take 10 (ann_timestamp ann)) then
        \<lparr>rel_agent = ann_agent_name ann, rel_task = task_ref ann, rel_message = msg,
         rel_notes = ann_notes ann\<rparr> # relevant_messages ann msgs
      else relevant_messages ann msgs)"

text \<open>
  The loop over the annotations of the file. An exception of \<open>load_context\<close> leaves the
  function; a context object is always true.
\<close>

fun relevant_loop ::
  "manager \<Rightarrow> string \<Rightarrow> code_annotation list \<Rightarrow> relevant list \<Rightarrow> error + relevant list" where
  "relevant_loop s name [] rel = Inr rel"
| "relevant_loop s name (ann # anns) rel =
     (if ann_agent_name ann \<noteq> name then
        (case fst (load_context s (ann_agent_name ann)) of
           Inl e \<Rightarrow> Inl e
         | Inr None \<Rightarrow> relevant_loop s name anns rel
         | Inr (Some other_context) \<Rightarrow>
             relevant_loop s name anns (rel @ relevant_messages ann (messages other_context)))
      else relevant_loop s name anns rel)"

definition get_relevant_context :: "manager \<Rightarrow> string \<Rightarrow> string \<Rightarrow> error + relevant list" where
  "get_relevant_context s name path =
     (case map_of (annotations s) path of
        None \<Rightarrow> Inr []
      | Some anns \<Rightarrow> relevant_loop s name anns [])"

section \<open>Task status\<close>

text \<open>A file of the tasks directory: absent, unreadable as UTF-8, or its content.\<close>

datatype task_file = NoFile | Unreadable | Content string

text \<open>The dict that is returned for a task file that exists; \<open>task_name\<close> is its key \<open>file\<close>.\<close>

record task_status =
  task_name :: string
  total_tasks :: nat
  completed :: nat
  progress :: string
  status :: string

datatype status_result = NotFound | Status task_status

definition get_task_status :: "(string \<Rightarrow> task_file) \<Rightarrow> string \<Rightarrow> error + status_result" where
  "get_task_status tasks task =
     (case tasks task of
        NoFile \<Rightarrow> Inr NotFound
      | Unreadable \<Rightarrow> Inl UnicodeDecodeError
      | Content cnt \<Rightarrow>
          (let total = count_matches ''- [ ]'' cnt;
               compl = count_matches ''- [x]'' cnt;
               st = (case re_search ''**Status:**'' not_bar_newline cnt of
                       Some g \<Rightarrow> strip g
                     | None \<Rightarrow> ''Unknown'')
           in Inr (Status \<lparr>task_name = task, total_tasks = total, completed = compl,
                           progress = show_nat compl @ ''/'' @ show_nat total, status = st\<rparr>)))"

section \<open>Notions used in the statements about the scanner and the status\<close>

text \<open>
  The number of occurrences of a marker in a text: the positions at which the marker
  starts.
\<close>

definition occurrences :: "string \<Rightarrow> string \<Rightarrow> nat" where
  "occurrences pat s = length (filter (\<lambda>i. prefix pat (drop i s)) [0 ..< length s])"

text \<open>A tasks directory with one file: two checked and three unchecked items.\<close>

definition example_tasks :: "string \<Rightarrow> task_file" where
  "example_tasks =
     (\<lambda>p. NoFile)(''tasks.md'' :=
        Content (''- [x] a'' @ [CHR 0x0A] @ ''- [ ] b'' @ [CHR 0x0A] @ ''- [x] c'' @ [CHR 0x0A] @
                 ''- [ ] d'' @ [CHR 0x0A] @ ''- [ ] e''))"

text \<open>
  A file whose read fails: it cannot be opened, or one of its lines does not decode.
\<close>

definition read_fails :: "source_file \<Rightarrow> bool" where
  "read_fails f = (case f of Unopenable \<Rightarrow> True | Text ls \<Rightarrow> Undecodable \<in> set ls)"

text \<open>
  A manager that starts with an index entry for \<open>old.ts\<close>, and a tree in which \<open>old.ts\<close>
  has no annotation any more, \<open>bad.ts\<close> does not decode and \<open>new.ts\<close> has one annotation.
\<close>

definition stale_annotation :: code_annotation where
  "stale_annotation =
     \<lparr>file_path = ''old.ts'', line_number = 3, ann_agent_name = ''a'', ann_timestamp = '''',
      task_ref = '''', ann_notes = ''''\<rparr>"

definition stale_manager :: manager where
  "stale_manager = new_manager Map.empty (Some [(''old.ts'', [stale_annotation])])"

definition example_tree :: "string \<Rightarrow> source_file" where
  "example_tree =
     (\<lambda>p. Unopenable)
       (''old.ts'' := Text [Line (''export {}'' @ [CHR 0x0A])],
        ''bad.ts'' := Text [Line (''// @agent: foo'' @ [CHR 0x0A]), Undecodable],
        ''new.ts'' := Text [Line (''// @agent: bar'' @ [CHR 0x0A])])"





section \<open>Properties of the context store\<close>

subsection \<open>The trim loop\<close>

lemma trim_loop_stop:
  "\<not> (current_tokens ctx > t \<and> length (messages ctx) > 1) \<Longrightarrow> trim_loop t ctx = ctx"
  by (subst trim_loop.simps) auto

lemma trim_loop_step:
  "current_tokens ctx > t \<Longrightarrow> length (messages ctx) > 1 \<Longrightarrow>
   trim_loop t ctx = trim_loop t
     (ctx\<lparr>messages := take 1 (messages ctx) @ drop 2 (messages ctx),
          current_tokens := current_tokens ctx - get_tokens (messages ctx ! 1)\<rparr>)"
  by (subst trim_loop.simps) (simp add: Let_def)

lemma pop1_sum:
  "1 < length ms \<Longrightarrow>
   sum_list (map get_tokens (take 1 ms @ drop 2 ms)) = sum_list (map get_tokens ms) - get_tokens (ms ! 1)"
  by (cases ms; cases "tl ms") auto

lemma trim_loop_counter_ok: "counter_ok ctx \<Longrightarrow> counter_ok (trim_loop t ctx)"
proof (induction t ctx rule: trim_loop.induct)
  case (1 t ctx)
  show ?case
  proof (cases "current_tokens ctx > t \<and> length (messages ctx) > 1")
    case True
    let ?c = "ctx\<lparr>messages := take 1 (messages ctx) @ drop 2 (messages ctx),
          current_tokens := current_tokens ctx - get_tokens (messages ctx ! 1)\<rparr>"
    have "counter_ok ?c" using True "1.prems" pop1_sum [of "messages ctx"] by (simp add: counter_ok_def)
    then have "counter_ok (trim_loop t ?c)" using "1.IH" True by simp
    then show ?thesis using True by (simp add: trim_loop_step)
  next
    case False
    then show ?thesis using "1.prems" by (simp add: trim_loop_stop)
  qed
qed

lemma trim_loop_max: "max_tokens (trim_loop t ctx) = max_tokens ctx"
proof (induction t ctx rule: trim_loop.induct)
  case (1 t ctx)
  show ?case
  proof (cases "current_tokens ctx > t \<and> length (messages ctx) > 1")
    case True
    then show ?thesis using "1.IH" by (simp add: trim_loop_step)
  next
    case False
    then show ?thesis by (simp add: trim_loop_stop)
  qed
qed


lemma agents_trim_registered:
  "agents (snd (trim_registered s n c)) = (agents s)(n \<mapsto> fst (trim_registered s n c))"
  by (simp add: trim_registered_def Let_def save_context_def print_def)



subsection \<open>The registry between operations\<close>

lemma store_ok_new: "store_ok (new_manager d a)"
  by (simp add: store_ok_def new_manager_def)

lemma store_ok_register: "store_ok s \<Longrightarrow> store_ok (register_agent s n task now)"
  by (simp add: store_ok_def register_agent_def save_context_def print_def Let_def counter_ok_def)

lemma store_ok_trim_registered:
  "store_ok s \<Longrightarrow> counter_ok c \<Longrightarrow> max_tokens c = 200000 \<Longrightarrow>
   store_ok (snd (trim_registered s n c))"
  by (simp add: store_ok_def trim_registered_def save_context_def print_def Let_def
      trim_loop_counter_ok trim_loop_max)

lemma store_ok_trim: "store_ok s \<Longrightarrow> store_ok (snd (trim_context s n))"
proof (cases "agents s n")
  case None
  assume "store_ok s"
  with None show ?thesis by (simp add: trim_context_def)
next
  case (Some c)
  assume ok: "store_ok s"
  with Some have "counter_ok c" "max_tokens c = 200000" by (auto simp: store_ok_def)
  with ok Some show ?thesis by (simp add: trim_context_def store_ok_trim_registered)
qed

lemma store_ok_save:
  "store_ok s \<Longrightarrow> agents s n = Some c \<Longrightarrow> store_ok (save_context s n c)"
  by (simp add: store_ok_def save_context_def)

lemma store_ok_add: 
  assumes "store_ok s" shows "store_ok (snd (add_message s n r c t now))"
proof (cases "agents s n")
  case None
  with assms show ?thesis by (simp add: add_message_def)
next
  case (Some ctx)
  let ?c2 = "ctx\<lparr>messages := messages ctx @ [\<lparr>role = r, content = c, msg_timestamp = Some now, tokens = Some t\<rparr>],
     current_tokens := current_tokens ctx + t\<rparr>"
  let ?s1 = "s\<lparr>agents := (agents s)(n \<mapsto> ?c2)\<rparr>"
  from assms Some have c: "counter_ok ctx" "max_tokens ctx = 200000" by (auto simp: store_ok_def)
  then have c2: "counter_ok ?c2" "max_tokens ?c2 = 200000"
    by (simp_all add: counter_ok_def get_tokens_def)
  show ?thesis
  proof (cases "current_tokens ?c2 > max_tokens ?c2")
    case True
    have "store_ok (snd (trim_registered ?s1 n ?c2))"
      using assms c2
      by (simp add: store_ok_def trim_registered_def save_context_def print_def Let_def
      trim_loop_counter_ok trim_loop_max)
    then have "store_ok (save_context (snd (trim_registered ?s1 n ?c2)) n (fst (trim_registered ?s1 n ?c2)))"
      by (rule store_ok_save) (simp add: agents_trim_registered)
    then show ?thesis using Some True by (simp add: add_message_def Let_def case_prod_beta)
  next
    case False
    have "store_ok (save_context ?s1 n ?c2)"
      using assms c2 by (simp add: store_ok_def save_context_def)
    then show ?thesis using Some False by (simp add: add_message_def Let_def)
  qed
qed

lemma store_ok_exec: "store_ok s \<Longrightarrow> store_ok (exec_op opn s)"
  by (cases opn) (simp_all add: store_ok_register store_ok_add store_ok_trim)

lemma store_ok_run: "store_ok s \<Longrightarrow> store_ok (run ops s)"
  unfolding run_def by (induction ops arbitrary: s) (simp_all add: store_ok_exec)

lemma example_agents:
  "agents (run example_ops (new_manager Map.empty None)) ''a'' = Some example_context"
  by (simp add: example_ops_def example_context_def run_def register_agent_def add_message_def
      save_context_def print_def new_manager_def Let_def)



subsection \<open>Claims\<close>

text \<open>
  C1. Whatever sequence of \<open>register_agent\<close>, \<open>add_message\<close> and \<open>_trim_context\<close> calls a
  freshly created manager has served, the token counter of every registered agent equals
  the sum of the token costs of the messages it retains; the file written for the agent
  holds the same context, so that loading it back gives a context with the same property.
\<close>

theorem counter_invariant:
  "agents (run ops (new_manager d a)) name = Some ctx \<Longrightarrow>
   current_tokens ctx = sum_list (map get_tokens (messages ctx)) \<and>
   context_files (run ops (new_manager d a)) name = Some (Saved ctx)"
  using store_ok_run [OF store_ok_new, of ops d a]
  by (simp add: store_ok_def counter_ok_def)

theorem counter_invariant_witness:
  "agents (run example_ops (new_manager Map.empty None)) ''a'' = Some example_context \<and>
   current_tokens example_context = sum_list (map get_tokens (messages example_context)) \<and>
   context_files (run example_ops (new_manager Map.empty None)) ''a'' = Some (Saved example_context)"
  using example_agents counter_invariant [OF example_agents] by simp







text \<open>
  C5. A freshly registered agent with the default budget of 200,000 receives messages of
  costs 0, 50,000, 80,000 and 90,000. Only the last append trims (the counter stands at
  220,000), the trim removes the message of cost 50,000 alone, and the agent ends with the
  costs 0, 80,000, 90,000 and a counter of 170,000, in memory and in its file.
\<close>

theorem trim_example:
  "run [RegisterAgent n task t0, AddMessage n r1 c1 0 t1, AddMessage n r2 c2 50000 t2,
        AddMessage n r3 c3 80000 t3, AddMessage n r4 c4 90000 t4] (new_manager d a)
   = \<lparr>agents = Map.empty(n \<mapsto> \<lparr>agent_name = n, timestamp = t0, task_file = task,
         current_tokens = 170000, max_tokens = 200000,
         messages =
           [\<lparr>role = r1, content = c1, msg_timestamp = Some t1, tokens = Some 0\<rparr>,
            \<lparr>role = r3, content = c3, msg_timestamp = Some t3, tokens = Some 80000\<rparr>,
            \<lparr>role = r4, content = c4, msg_timestamp = Some t4, tokens = Some 90000\<rparr>]\<rparr>),
       annotations = load_annotations a,
       context_files = d(n \<mapsto> Saved \<lparr>agent_name = n, timestamp = t0, task_file = task,
         current_tokens = 170000, max_tokens = 200000,
         messages =
           [\<lparr>role = r1, content = c1, msg_timestamp = Some t1, tokens = Some 0\<rparr>,
            \<lparr>role = r3, content = c3, msg_timestamp = Some t3, tokens = Some 80000\<rparr>,
            \<lparr>role = r4, content = c4, msg_timestamp = Some t4, tokens = Some 90000\<rparr>]\<rparr>),
       annotations_file = a,
       printed = [Registered n, Trimming n 220000, Trimmed n 170000]\<rparr>"
  by (simp add: run_def register_agent_def add_message_def trim_registered_def save_context_def
      print_def new_manager_def Let_def trim_loop_step trim_loop_stop get_tokens_def)

section \<open>Properties of the index and of the relevance lookup\<close>

subsection \<open>What a scan leaves in the index\<close>

lemma scan_code_annotations_fst: "fst (scan_code_annotations fs s p) = snd (scan_try fs p)"
  by (simp add: scan_code_annotations_def split: prod.splits option.splits)

lemma scan_code_annotations_annotations:
  "annotations (snd (scan_code_annotations fs s p)) = annotations s"
  by (simp add: scan_code_annotations_def print_def split: prod.splits option.splits)

lemma scan_files_index:
  "map_of (annotations (scan_files fs files s)) p =
     (if p \<in> set files \<and> \<not> skipped p \<and> snd (scan_try fs p) \<noteq> []
      then Some (snd (scan_try fs p)) else map_of (annotations s) p)"
proof (induction files arbitrary: s)
  case Nil
  then show ?case by simp
next
  case (Cons f files)
  obtain anns s1 where sc: "scan_code_annotations fs s f = (anns, s1)"
    by (cases "scan_code_annotations fs s f")
  have anns: "anns = snd (scan_try fs f)" using scan_code_annotations_fst [of fs s f] sc by simp
  have s1: "annotations s1 = annotations s" using scan_code_annotations_annotations [of fs s f] sc by simp
  show ?case
    using Cons.IH sc anns s1 by (auto simp: update_conv')
qed

lemma update_annotations_index_annotations:
  "annotations (update_annotations_index fs files s) = annotations (scan_files fs files (print Scanning s))"
  by (simp add: update_annotations_index_def Let_def print_def save_annotations_def)

lemma update_index:
  "map_of (annotations (update_annotations_index fs files s)) p =
     (if p \<in> set files \<and> \<not> skipped p \<and> snd (scan_try fs p) \<noteq> []
      then Some (snd (scan_try fs p)) else map_of (annotations s) p)"
  by (simp add: update_annotations_index_annotations scan_files_index print_def)

lemma printed_scan_files:
  "\<exists>es. printed (scan_files fs files s) = printed s @ es"
proof (induction files arbitrary: s)
  case Nil
  then show ?case by simp
next
  case (Cons f files)
  obtain anns s1 where sc: "scan_code_annotations fs s f = (anns, s1)"
    by (cases "scan_code_annotations fs s f")
  then obtain es1 where es1: "printed s1 = printed s @ es1"
    by (auto simp: scan_code_annotations_def print_def split: prod.splits option.splits)
  show ?case
  proof (cases "skipped f")
    case True
    then show ?thesis using Cons.IH by simp
  next
    case False
    obtain es2 where "printed (scan_files fs files
               (if anns \<noteq> [] then s1\<lparr>annotations := AList.update f anns (annotations s1)\<rparr>
                else s1)) = printed (if anns \<noteq> [] then s1\<lparr>annotations := AList.update f anns (annotations s1)\<rparr>
                else s1) @ es2"
      using Cons.IH by blast
    then show ?thesis using False sc es1 by (auto split: if_splits)
  qed
qed

lemma printed_scan_files_error:
  "path \<in> set files \<Longrightarrow> \<not> skipped path \<Longrightarrow> scan_try fs path = (Some e, anns) \<Longrightarrow>
   ErrorScanning path e \<in> set (printed (scan_files fs files s))"
proof (induction files arbitrary: s)
  case Nil
  then show ?case by simp
next
  case (Cons f files)
  show ?case
  proof (cases "f = path")
    case True
    let ?s1 = "print (ErrorScanning path e) s"
    let ?s2 = "if anns \<noteq> [] then ?s1\<lparr>annotations := AList.update path anns (annotations ?s1)\<rparr> else ?s1"
    have "scan_files fs (f # files) s = scan_files fs files ?s2"
      using True Cons.prems by (simp add: scan_code_annotations_def)
    moreover obtain es where "printed (scan_files fs files ?s2) = printed ?s2 @ es"
      using printed_scan_files by blast
    moreover have "ErrorScanning path e \<in> set (printed ?s2)" by (simp add: print_def)
    ultimately show ?thesis by simp
  next
    case False
    then have "path \<in> set files" using Cons.prems by simp
    then show ?thesis using Cons.IH Cons.prems(2,3)
      by (auto split: prod.splits)
  qed
qed

subsection \<open>Files that cannot be read\<close>

lemma readlines_fails: "Undecodable \<in> set ls \<Longrightarrow> readlines ls = Inl UnicodeDecodeError"
  by (induction ls rule: readlines.induct) auto

lemma scan_lines_fails:
  "Undecodable \<in> set remaining \<Longrightarrow> Undecodable \<in> set whole \<Longrightarrow>
   \<exists>e. scan_lines path whole remaining n anns = (Some e, anns)"
proof (induction remaining arbitrary: n)
  case Nil
  then show ?case by simp
next
  case (Cons l remaining)
  show ?case
  proof (cases l)
    case Undecodable
    then show ?thesis by simp
  next
    case (Line line)
    with Cons.prems have "Undecodable \<in> set remaining" by simp
    then have "\<exists>e. scan_lines path whole remaining (Suc n) anns = (Some e, anns)"
      using Cons.IH Cons.prems(2) by blast
    then show ?thesis
      using Line readlines_fails [OF Cons.prems(2)] by (auto split: option.splits)
  qed
qed

lemma scan_try_fails: "read_fails (fs path) \<Longrightarrow> \<exists>e. scan_try fs path = (Some e, [])"
  by (cases "fs path") (auto simp: read_fails_def scan_try_def scan_lines_fails)

subsection \<open>The example tree\<close>

lemma example_scan_old: "scan_try example_tree ''old.ts'' = (None, [])"
  by (simp add: example_tree_def scan_try_def)

lemma example_scan_new:
  "scan_try example_tree ''new.ts'' =
     (None, [\<lparr>file_path = ''new.ts'', line_number = 1, ann_agent_name = ''bar'',
              ann_timestamp = '''', task_ref = '''', ann_notes = ''''\<rparr>])"
  by (simp add: example_tree_def scan_try_def match_tail_def not_space_def is_space_def)

lemma example_not_skipped: "\<not> skipped ''old.ts''" "\<not> skipped ''new.ts''" "\<not> skipped ''bad.ts''"
  by (simp_all add: skipped_def)

lemma example_run:
  "agents (run example_ops (new_manager Map.empty a)) ''a'' = Some example_context"
  "context_files (run example_ops (new_manager Map.empty a)) ''a'' = Some (Saved example_context)"
  "annotations (run example_ops (new_manager Map.empty a)) = load_annotations a"
  by (simp_all add: example_ops_def example_context_def run_def register_agent_def add_message_def
      save_context_def print_def new_manager_def Let_def)

subsection \<open>The loop of the relevance lookup\<close>

lemma relevant_messages_no_day:
  "ann_timestamp ann = '''' \<Longrightarrow>
   relevant_messages ann msgs =
     map (\<lambda>msg. \<lparr>rel_agent = ann_agent_name ann, rel_task = task_ref ann, rel_message = msg,
                 rel_notes = ann_notes ann\<rparr>) msgs"
  by (induction msgs) (simp_all add: startswith_def)

lemma relevant_loop_returns:
  "\<forall>a\<in>set anns. context_files s (ann_agent_name a) \<noteq> Some Malformed \<Longrightarrow>
   \<exists>out. relevant_loop s name anns rel = Inr out"
proof (induction anns arbitrary: rel)
  case Nil
  then show ?case by simp
next
  case (Cons a anns)
  then show ?case
    by (cases "context_files s (ann_agent_name a)")
       (auto simp: load_context_def split: context_file.splits)
qed

lemma relevant_loop_keeps:
  "relevant_loop s name anns rel = Inr out \<Longrightarrow> set rel \<subseteq> set out"
proof (induction anns arbitrary: rel)
  case Nil
  then show ?case by simp
next
  case (Cons a anns)
  then show ?case
    by (fastforce split: if_splits sum.splits option.splits)
qed

lemma relevant_loop_has:
  "relevant_loop s name anns rel = Inr out \<Longrightarrow> ann \<in> set anns \<Longrightarrow>
   ann_agent_name ann \<noteq> name \<Longrightarrow>
   context_files s (ann_agent_name ann) = Some (Saved other) \<Longrightarrow>
   set (relevant_messages ann (messages other)) \<subseteq> set out"
proof (induction anns arbitrary: rel)
  case Nil
  then show ?case by simp
next
  case (Cons a anns)
  show ?case
  proof (cases "a = ann")
    case True
    have "fst (load_context s (ann_agent_name ann)) = Inr (Some other)"
      using Cons.prems(4) by (simp add: load_context_def)
    then have "relevant_loop s name anns (rel @ relevant_messages ann (messages other)) = Inr out"
      using Cons.prems(1,3) True by simp
    then have "set (rel @ relevant_messages ann (messages other)) \<subseteq> set out"
      by (rule relevant_loop_keeps)
    then show ?thesis by simp
  next
    case False
    then have "ann \<in> set anns" using Cons.prems(2) by simp
    moreover obtain rel' where "relevant_loop s name anns rel' = Inr out"
      using Cons.prems(1) by (auto split: if_splits sum.splits option.splits)
    ultimately show ?thesis using Cons.IH Cons.prems(3,4) by blast
  qed
qed

subsection \<open>Claims\<close>

text \<open>
  C4, as the code has it. \<open>update_annotations_index\<close> does not start from an empty index.
  For a path of the walk that is not skipped and whose scan gives at least one annotation,
  the entry becomes that scan result, whatever it was before. Every other path keeps the
  entry it had, or none: a walked file whose scan gives nothing now, a skipped file, a
  file that the walk does not reach any more. The index is then written to its file as a
  whole.
\<close>

theorem update_annotations_index_merges:
  "map_of (annotations (update_annotations_index fs files s)) p =
     (if p \<in> set files \<and> \<not> skipped p \<and> fst (scan_code_annotations fs s p) \<noteq> []
      then Some (fst (scan_code_annotations fs s p)) else map_of (annotations s) p) \<and>
   annotations_file (update_annotations_index fs files s) =
     Some (annotations (update_annotations_index fs files s))"
  by (simp add: update_index scan_code_annotations_fst)
     (simp add: update_annotations_index_def Let_def print_def save_annotations_def)

theorem update_annotations_index_merges_witness:
  "map_of (annotations (update_annotations_index example_tree [''old.ts'', ''new.ts''] stale_manager))
      ''new.ts''
     = Some [\<lparr>file_path = ''new.ts'', line_number = 1, ann_agent_name = ''bar'',
              ann_timestamp = '''', task_ref = '''', ann_notes = ''''\<rparr>] \<and>
   annotations_file (update_annotations_index example_tree [''old.ts'', ''new.ts''] stale_manager) =
     Some (annotations (update_annotations_index example_tree [''old.ts'', ''new.ts''] stale_manager))"
  using update_annotations_index_merges [of example_tree "[''old.ts'', ''new.ts'']" stale_manager "''new.ts''"]
  by (simp add: scan_code_annotations_fst example_scan_new example_not_skipped)

text \<open>
  The claim as stated fails: \<open>old.ts\<close> is walked, its scan gives no annotation, and its
  entry from the earlier index is still there after the update.
\<close>

theorem rebuild_keeps_stale_entry:
  "fst (scan_code_annotations example_tree stale_manager ''old.ts'') = [] \<and>
   map_of (annotations (update_annotations_index example_tree [''old.ts''] stale_manager)) ''old.ts''
     = Some [stale_annotation]"
  by (simp add: update_index scan_code_annotations_fst example_scan_old stale_manager_def
      new_manager_def load_annotations_def)

text \<open>
  C7. When a file cannot be opened or does not decode, \<open>scan_code_annotations\<close> returns no
  annotation, prints the error and raises nothing. A walk that meets such a file still
  scans all the others: the index afterwards is what the other files give, the entry of
  the failing file is left as it was, and the error of the failing file is in the output.
\<close>

theorem scan_failure_is_contained:
  assumes "read_fails (fs path)"
  shows "(\<exists>e. scan_code_annotations fs s path = ([], print (ErrorScanning path e) s)) \<and>
     (\<forall>q. map_of (annotations (update_annotations_index fs files s)) q =
        (if q \<noteq> path \<and> q \<in> set files \<and> \<not> skipped q \<and> fst (scan_code_annotations fs s q) \<noteq> []
         then Some (fst (scan_code_annotations fs s q)) else map_of (annotations s) q)) \<and>
     (path \<in> set files \<and> \<not> skipped path \<longrightarrow>
        (\<exists>e. ErrorScanning path e \<in> set (printed (update_annotations_index fs files s))))"
proof -
  obtain e where e: "scan_try fs path = (Some e, [])"
    using scan_try_fails [of fs path] assms by blast
  have a: "scan_code_annotations fs s path = ([], print (ErrorScanning path e) s)"
    using e by (simp add: scan_code_annotations_def)
  have b: "map_of (annotations (update_annotations_index fs files s)) q =
        (if q \<noteq> path \<and> q \<in> set files \<and> \<not> skipped q \<and> fst (scan_code_annotations fs s q) \<noteq> []
         then Some (fst (scan_code_annotations fs s q)) else map_of (annotations s) q)" for q
    using e by (auto simp: update_index scan_code_annotations_fst)
  have c: "ErrorScanning path e \<in> set (printed (update_annotations_index fs files s))"
    if "path \<in> set files \<and> \<not> skipped path"
    using that printed_scan_files_error [of path files fs e "[]" "print Scanning s"] e
    by (simp add: update_annotations_index_def Let_def print_def save_annotations_def)
  show ?thesis using a b c by blast
qed

theorem scan_failure_is_contained_witness:
  "read_fails (example_tree ''bad.ts'') \<and>
   (\<exists>e. scan_code_annotations example_tree stale_manager ''bad.ts''
         = ([], print (ErrorScanning ''bad.ts'' e) stale_manager)) \<and>
   map_of (annotations (update_annotations_index example_tree [''bad.ts'', ''new.ts''] stale_manager))
      ''new.ts''
     = Some [\<lparr>file_path = ''new.ts'', line_number = 1, ann_agent_name = ''bar'',
              ann_timestamp = '''', task_ref = '''', ann_notes = ''''\<rparr>] \<and>
   (\<exists>e. ErrorScanning ''bad.ts'' e
         \<in> set (printed (update_annotations_index example_tree [''bad.ts'', ''new.ts''] stale_manager)))"
proof -
  have h: "read_fails (example_tree ''bad.ts'')"
    by (simp add: read_fails_def example_tree_def)
  show ?thesis
    using h scan_failure_is_contained [of example_tree "''bad.ts''" stale_manager "[''bad.ts'', ''new.ts'']"]
    by (simp add: scan_code_annotations_fst example_scan_new example_not_skipped)
qed

text \<open>
  C10. When an annotation of the file has the empty timestamp and is by another agent
  whose context file loads, every message of that context is returned for the annotation,
  whatever its own timestamp: the day filter is \<open>startswith('')\<close>. The lookup returns as
  long as no context file of an annotating agent is malformed.
\<close>

theorem relevant_context_empty_timestamp:
  assumes "map_of (annotations s) path = Some anns"
    and "ann \<in> set anns"
    and "ann_timestamp ann = ''''"
    and "ann_agent_name ann \<noteq> name"
    and "context_files s (ann_agent_name ann) = Some (Saved other)"
    and "\<forall>a\<in>set anns. context_files s (ann_agent_name a) \<noteq> Some Malformed"
  shows "\<exists>out. get_relevant_context s name path = Inr out \<and>
           (\<forall>msg\<in>set (messages other).
              \<lparr>rel_agent = ann_agent_name ann, rel_task = task_ref ann, rel_message = msg,
               rel_notes = ann_notes ann\<rparr> \<in> set out)"
proof -
  obtain out where out: "relevant_loop s name anns [] = Inr out"
    using relevant_loop_returns [OF assms(6)] by blast
  have "set (relevant_messages ann (messages other)) \<subseteq> set out"
    using relevant_loop_has [OF out assms(2) assms(4) assms(5)] .
  then have "\<forall>msg\<in>set (messages other).
              \<lparr>rel_agent = ann_agent_name ann, rel_task = task_ref ann, rel_message = msg,
               rel_notes = ann_notes ann\<rparr> \<in> set out"
    using assms(3) by (auto simp: relevant_messages_no_day)
  then show ?thesis using out assms(1) by (simp add: get_relevant_context_def)
qed

theorem relevant_context_empty_timestamp_witness:
  "map_of (annotations (run example_ops stale_manager)) ''old.ts'' = Some [stale_annotation] \<and>
   ann_timestamp stale_annotation = '''' \<and>
   context_files (run example_ops stale_manager) (ann_agent_name stale_annotation)
     = Some (Saved example_context) \<and>
   (\<exists>out. get_relevant_context (run example_ops stale_manager) ''b'' ''old.ts'' = Inr out \<and>
      (\<forall>msg\<in>set (messages example_context).
         \<lparr>rel_agent = ann_agent_name stale_annotation, rel_task = task_ref stale_annotation,
          rel_message = msg, rel_notes = ann_notes stale_annotation\<rparr> \<in> set out))"
proof -
  let ?s = "run example_ops stale_manager"
  have 1: "map_of (annotations ?s) ''old.ts'' = Some [stale_annotation]"
    by (simp add: stale_manager_def example_run load_annotations_def)
  have 2: "stale_annotation \<in> set [stale_annotation]" by simp
  have 3: "ann_timestamp stale_annotation = ''''" by (simp add: stale_annotation_def)
  have 4: "ann_agent_name stale_annotation \<noteq> ''b''" by (simp add: stale_annotation_def)
  have 5: "context_files ?s (ann_agent_name stale_annotation) = Some (Saved example_context)"
    by (simp add: stale_manager_def example_run stale_annotation_def)
  have 6: "\<forall>a\<in>set [stale_annotation]. context_files ?s (ann_agent_name a) \<noteq> Some Malformed"
    using 5 by simp
  show ?thesis
    using 1 3 5 relevant_context_empty_timestamp [OF 1 2 3 4 5 6] by simp
qed

section \<open>Properties of the scan of one file\<close>

subsection \<open>The loops of the scanner\<close>










subsection \<open>The example files\<close>






subsection \<open>Claims\<close>




section \<open>Properties of the task status\<close>

lemma occurrences_Cons:
  "occurrences pat (c # cs) = (if prefix pat (c # cs) then 1 else 0) + occurrences pat cs"
proof -
  have "[0 ..< Suc (length cs)] = 0 # map Suc [0 ..< length cs]"
    unfolding map_Suc_upt by (rule upt_conv_Cons) simp
  then show ?thesis
    by (simp add: occurrences_def filter_map o_def del: upt_Suc)
qed

lemma occurrences_skip:
  "p0 \<notin> set xs \<Longrightarrow> occurrences (p0 # ptl) (xs @ rest) = occurrences (p0 # ptl) rest"
  by (induction xs) (auto simp: occurrences_Cons)

lemma count_matches_occurrences:
  "p0 \<notin> set ptl \<Longrightarrow> count_matches (p0 # ptl) s = occurrences (p0 # ptl) s"
proof (induction "p0 # ptl" s rule: count_matches.induct)
  case 1
  then show ?case by (simp add: occurrences_def)
next
  case (2 c cs)
  show ?case
  proof (cases "prefix (p0 # ptl) (c # cs)")
    case True
    then obtain rest where cs: "cs = ptl @ rest" and c: "c = p0"
      by (auto simp: prefix_def)
    have "count_matches (p0 # ptl) (c # cs) = Suc (count_matches (p0 # ptl) rest)"
      using True cs by simp
    also have "count_matches (p0 # ptl) rest = occurrences (p0 # ptl) rest"
      using "2.hyps"(1) [OF True] "2.prems" cs by simp
    also have "Suc (occurrences (p0 # ptl) rest) = occurrences (p0 # ptl) (c # cs)"
      using True "2.prems" cs by (simp add: occurrences_Cons occurrences_skip)
    finally show ?thesis .
  next
    case False
    then show ?thesis using "2.hyps"(2) "2.prems" by (auto simp: occurrences_Cons)
  qed
qed

lemma example_occurrences:
  "occurrences ''- [x]'' (''- [x] a'' @ [CHR 0x0A] @ ''- [ ] b'' @ [CHR 0x0A] @ ''- [x] c'' @ [CHR 0x0A] @
                 ''- [ ] d'' @ [CHR 0x0A] @ ''- [ ] e'') = 2"
  "occurrences ''- [ ]'' (''- [x] a'' @ [CHR 0x0A] @ ''- [ ] b'' @ [CHR 0x0A] @ ''- [x] c'' @ [CHR 0x0A] @
                 ''- [ ] d'' @ [CHR 0x0A] @ ''- [ ] e'') = 3"
  by (simp_all add: occurrences_Cons) (simp_all add: occurrences_def)

text \<open>
  C9. For every content of a task file, \<open>total_tasks\<close> is the number of occurrences of
  the unchecked marker \<open>- [ ]\<close> alone and \<open>completed\<close> is the number of occurrences of
  \<open>- [x]\<close>; the progress string is the two counts around a slash. A content with two
  occurrences of \<open>- [x]\<close> and three of \<open>- [ ]\<close> gives 3, 2 and \<open>2/3\<close>.
\<close>

theorem task_status_counts:
  assumes "tasks task = Content cnt"
  shows "\<exists>r. get_task_status tasks task = Inr (Status r) \<and>
      total_tasks r = occurrences ''- [ ]'' cnt \<and>
      completed r = occurrences ''- [x]'' cnt \<and>
      progress r = show_nat (completed r) @ ''/'' @ show_nat (total_tasks r) \<and>
      (occurrences ''- [x]'' cnt = 2 \<and> occurrences ''- [ ]'' cnt = 3 \<longrightarrow>
         total_tasks r = 3 \<and> completed r = 2 \<and> progress r = ''2/3'')"
proof -
  have a: "count_matches ''- [ ]'' cnt = occurrences ''- [ ]'' cnt"
    by (rule count_matches_occurrences) simp
  have b: "count_matches ''- [x]'' cnt = occurrences ''- [x]'' cnt"
    by (rule count_matches_occurrences) simp
  have s2: "show_nat 2 = ''2''" and s3: "show_nat 3 = ''3''"
    by (simp_all add: show_nat.simps)
  show ?thesis
    using assms by (simp add: get_task_status_def Let_def a b s2 s3)
qed

theorem task_status_counts_witness:
  "example_tasks ''tasks.md'' =
     Content (''- [x] a'' @ [CHR 0x0A] @ ''- [ ] b'' @ [CHR 0x0A] @ ''- [x] c'' @ [CHR 0x0A] @
                 ''- [ ] d'' @ [CHR 0x0A] @ ''- [ ] e'') \<and>
   (\<exists>r. get_task_status example_tasks ''tasks.md'' = Inr (Status r) \<and>
      total_tasks r = 3 \<and> completed r = 2 \<and> progress r = ''2/3'')"
proof -
  have h: "example_tasks ''tasks.md'' =
     Content (''- [x] a'' @ [CHR 0x0A] @ ''- [ ] b'' @ [CHR 0x0A] @ ''- [x] c'' @ [CHR 0x0A] @
                 ''- [ ] d'' @ [CHR 0x0A] @ ''- [ ] e'')"
    by (simp add: example_tasks_def)
  show ?thesis
    using h example_occurrences
      task_status_counts [of example_tasks "''tasks.md''"
        "''- [x] a'' @ [CHR 0x0A] @ ''- [ ] b'' @ [CHR 0x0A] @ ''- [x] c'' @ [CHR 0x0A] @
                 ''- [ ] d'' @ [CHR 0x0A] @ ''- [ ] e''"]
    by auto
qed

end
